theory Spec2Isabelle
  imports Complex_Main "HOL-Library.Multiset"
begin

section \<open>Data model\<close>

text \<open>
  A session is the JSON object \<open>{"start": ms, "end": ms}\<close>; both fields are epoch
  milliseconds (Python's unbounded \<open>int\<close>).  A task is
  \<open>{"id": str, "name": str, "sessions": [...]}\<close>.  The field \<open>end\<close> is called
  \<open>end_ts\<close> here (the name of the local variable that fills it) and \<open>id\<close> is called
  \<open>task_id\<close>, as both source names are taken in Isabelle.
\<close>

record session =
  start :: int
  end_ts :: int

record task =
  task_id :: string
  name :: string
  sessions :: "session list"

text \<open>
  One entry of \<open>SEED_TASKS\<close> or \<open>EXISTING_SEEDS\<close>: frequency and duration range in
  hours.  The float literals of the source are exact decimal fractions here: floating
  point numbers are modelled as rationals with exact arithmetic.
\<close>

record spec =
  freq :: rat
  min_h :: rat
  max_h :: rat

definition SEED_TASKS :: "(string \<times> spec) list" where
  "SEED_TASKS =
    [(''deep work'',     \<lparr>freq = 85/100, min_h = 1,    max_h = 35/10\<rparr>),
     (''email & slack'', \<lparr>freq = 90/100, min_h = 3/10, max_h = 12/10\<rparr>),
     (''code review'',   \<lparr>freq = 65/100, min_h = 5/10, max_h = 2\<rparr>),
     (''meetings'',      \<lparr>freq = 55/100, min_h = 5/10, max_h = 2\<rparr>),
     (''planning'',      \<lparr>freq = 40/100, min_h = 3/10, max_h = 1\<rparr>)]"

definition EXISTING_SEEDS :: "(string \<times> spec) list" where
  "EXISTING_SEEDS =
    [(''React Query'',    \<lparr>freq = 55/100, min_h = 5/10, max_h = 25/10\<rparr>),
     (''Interview Prep'', \<lparr>freq = 45/100, min_h = 5/10, max_h = 15/10\<rparr>)]"

section \<open>The random module\<close>

text \<open>
  The generator state is a tape of the values that successive calls of
  \<open>random.random()\<close> return, each in \<open>[0, 1)\<close>; every library call below reads one
  cell.  \<open>uniform(a, b)\<close> is \<open>a + (b - a) * random()\<close>, \<open>randint(a, b)\<close> is
  \<open>a + randbelow(b - a + 1)\<close>, and \<open>choices([1, 2, 3], weights=[0.45, 0.40, 0.15])\<close>
  bisects the cumulative weights \<open>[0.45, 0.85, 1.0]\<close>.  \<open>randint\<close> raises for an empty
  range; both calls of the script have \<open>a \<le> b\<close> (the upper bound of the first is a
  maximum with its lower bound), so that branch is left out.
\<close>

type_synonym rng = "nat \<Rightarrow> rat"

definition valid_rng :: "rng \<Rightarrow> bool" where
  "valid_rng r \<longleftrightarrow> (\<forall>i. 0 \<le> r i \<and> r i < 1)"

definition random_random :: "rng \<Rightarrow> rat \<times> rng" where
  "random_random r = (r 0, \<lambda>i. r (Suc i))"

definition random_uniform :: "rat \<Rightarrow> rat \<Rightarrow> rng \<Rightarrow> rat \<times> rng" where
  "random_uniform a b r = (case random_random r of (u, r') \<Rightarrow> (a + (b - a) * u, r'))"

definition random_randint :: "int \<Rightarrow> int \<Rightarrow> rng \<Rightarrow> int \<times> rng" where
  "random_randint a b r =
     (case random_random r of (u, r') \<Rightarrow> (a + \<lfloor>u * of_int (b - a + 1)\<rfloor>, r'))"

definition random_choices :: "rng \<Rightarrow> nat \<times> rng" where
  "random_choices r =
     (case random_random r of (u, r') \<Rightarrow>
        (if u < 45/100 then 1 else if u < 85/100 then 2 else 3, r'))"

section \<open>Helpers\<close>

text \<open>\<open>int(x)\<close> on a float truncates towards zero.\<close>

definition py_int :: "rat \<Rightarrow> int" where
  "py_int x = (if 0 \<le> x then \<lfloor>x\<rfloor> else \<lceil>x\<rceil>)"

text \<open>
  A \<open>date\<close> is its proleptic Gregorian ordinal (\<open>date.toordinal()\<close>; 1970-01-01 is
  719163), so that \<open>timedelta\<close> arithmetic is integer arithmetic and \<open>weekday()\<close> is
  \<open>(toordinal() + 6) % 7\<close>.  \<open>to_ms\<close> reads the naive local time \<open>hour:minute\<close> of day
  \<open>d\<close>; \<open>tz\<close> is the offset of local time from UTC in seconds.
\<close>

type_synonym date = int

definition weekday :: "date \<Rightarrow> int" where
  "weekday d = (d + 6) mod 7"

definition to_ms :: "int \<Rightarrow> date \<Rightarrow> int \<Rightarrow> int \<Rightarrow> int" where
  "to_ms tz d hour minute = ((d - 719163) * 86400 + hour * 3600 + minute * 60 - tz) * 1000"

text \<open>
  The body of \<open>for i in range(n)\<close> in \<open>gen_sessions\<close>, with the loop state
  (\<open>cursor\<close>, \<open>remaining\<close>, the list \<open>sessions\<close>, here \<open>out\<close>) and the generator
  passed along.  Both \<open>break\<close>s return the sessions collected so far.  The local
  \<open>end_ts\<close> is \<open>stop\<close> here.
\<close>

function gen_loop ::
  "int \<Rightarrow> nat \<Rightarrow> nat \<Rightarrow> int \<Rightarrow> int \<Rightarrow> session list \<Rightarrow> rng \<Rightarrow> session list \<times> rng" where
  "gen_loop day_end n i cursor remaining out r =
     (if n \<le> i then (out, r)
      else
        let is_last = (int i = int n - 1);
            (chunk, r1) =
              (if is_last then (remaining, r)
               else case random_uniform (35/100) (60/100) r of
                      (f, r') \<Rightarrow> (py_int (of_int remaining * f), r'));
            stop = min (cursor + chunk) day_end;
            out' = out @ [\<lparr>start = cursor, end_ts = stop\<rparr>];
            remaining' = remaining - (stop - cursor)
        in if remaining' \<le> 0 then (out', r1)
           else case random_randint 5 25 r1 of
                  (g, r2) \<Rightarrow>
                    let cursor' = stop + g * 60000
                    in if day_end \<le> cursor' then (out', r2)
                       else gen_loop day_end n (Suc i) cursor' remaining' out' r2)"
  by pat_completeness auto
termination
  by (relation "measure (\<lambda>(day_end, n, i, cursor, remaining, out, r). n - i)") auto

declare gen_loop.simps [simp del]

definition gen_sessions :: "int \<Rightarrow> date \<Rightarrow> rat \<Rightarrow> rng \<Rightarrow> session list \<times> rng" where
  "gen_sessions tz d total_hours r =
     (let total_ms  = py_int (total_hours * 3600000);
          day_start = to_ms tz d 9 0;
          day_end   = to_ms tz d 18 30;
          latest    = max day_start (day_end - total_ms - 1800000)
      in case random_randint day_start latest r of
           (cursor, r1) \<Rightarrow>
             case random_choices r1 of
               (n, r2) \<Rightarrow> gen_loop day_end n 0 cursor total_ms [] r2)"

text \<open>
  \<open>past_weekdays\<close>: \<open>today\<close> is what \<open>date.today()\<close> returns; the \<open>while\<close> loop runs
  on \<open>d\<close> and the list \<open>days\<close>.  The local \<open>start\<close> is \<open>first\<close> here.
\<close>

function weekdays_loop :: "date \<Rightarrow> date \<Rightarrow> date list \<Rightarrow> date list" where
  "weekdays_loop yesterday d days =
     (if d \<le> yesterday
      then weekdays_loop yesterday (d + 1) (if weekday d < 5 then days @ [d] else days)
      else days)"
  by pat_completeness auto
termination
  by (relation "measure (\<lambda>(yesterday, d, days). nat (yesterday + 1 - d))") auto

declare weekdays_loop.simps [simp del]

definition past_weekdays :: "date \<Rightarrow> int \<Rightarrow> date list" where
  "past_weekdays today n_weeks =
     (let yesterday = today - 1;
          first     = today - 7 * n_weeks
      in weekdays_loop yesterday first [])"

section \<open>The seeding driver\<close>

text \<open>
  The inner loop of \<open>add_sessions\<close>: a generated session is appended to the task's
  list unless its \<open>start\<close> is in the set \<open>existing\<close>, which then grows.
\<close>

fun append_new :: "session list \<Rightarrow> int set \<Rightarrow> session list \<Rightarrow> session list \<times> int set" where
  "append_new ss existing [] = (ss, existing)"
| "append_new ss existing (s # new) =
     (if start s \<notin> existing
      then append_new (ss @ [s]) (insert (start s) existing) new
      else append_new ss existing new)"

text \<open>The loop \<open>for d in days\<close> of \<open>add_sessions\<close>; \<open>continue\<close> goes on with the next day.\<close>

fun add_sessions_days ::
  "int \<Rightarrow> spec \<Rightarrow> date list \<Rightarrow> session list \<Rightarrow> int set \<Rightarrow> rng
     \<Rightarrow> session list \<times> int set \<times> rng" where
  "add_sessions_days tz sp [] ss existing r = (ss, existing, r)"
| "add_sessions_days tz sp (d # days) ss existing r =
     (case random_random r of
        (u, r1) \<Rightarrow>
          if freq sp < u then add_sessions_days tz sp days ss existing r1
          else case random_uniform (min_h sp) (max_h sp) r1 of
                 (h, r2) \<Rightarrow>
                   case gen_sessions tz d h r2 of
                     (new, r3) \<Rightarrow>
                       case append_new ss existing new of
                         (ss', existing') \<Rightarrow> add_sessions_days tz sp days ss' existing' r3)"

definition add_sessions :: "int \<Rightarrow> date list \<Rightarrow> task \<Rightarrow> spec \<Rightarrow> rng \<Rightarrow> task \<times> rng" where
  "add_sessions tz days t sp r =
     (let existing = set (map start (sessions t))
      in case add_sessions_days tz sp days (sessions t) existing r of
           (ss, existing', r') \<Rightarrow> (t\<lparr>sessions := ss\<rparr>, r'))"

text \<open>
  \<open>by_name\<close> maps a name to a task object that is also an element of \<open>data["tasks"]\<close>;
  here it maps the name to the position of that object in the list, and mutating the
  object is updating the list at that position.  The comprehension
  \<open>{t["name"]: t for t in data["tasks"]}\<close> lets a later task replace an earlier one of
  the same name.
\<close>

fun index_by_name :: "task list \<Rightarrow> nat \<Rightarrow> (string \<rightharpoonup> nat) \<Rightarrow> (string \<rightharpoonup> nat)" where
  "index_by_name [] i by_name = by_name"
| "index_by_name (t # ts) i by_name = index_by_name ts (Suc i) (by_name(name t \<mapsto> i))"

text \<open>
  The first loop over \<open>SEED_TASKS\<close> creates the tasks that are missing.  \<open>ids\<close> is the
  tape of the strings that successive calls of \<open>str(uuid.uuid4())\<close> return.
\<close>

fun create_missing ::
  "(string \<times> spec) list \<Rightarrow> (nat \<Rightarrow> string) \<Rightarrow> task list \<Rightarrow> (string \<rightharpoonup> nat)
     \<Rightarrow> task list \<times> (string \<rightharpoonup> nat)" where
  "create_missing [] ids tasks by_name = (tasks, by_name)"
| "create_missing ((nm, sp) # specs) ids tasks by_name =
     (if by_name nm = None
      then create_missing specs (\<lambda>i. ids (Suc i))
             (tasks @ [\<lparr>task_id = ids 0, name = nm, sessions = []\<rparr>])
             (by_name(nm \<mapsto> length tasks))
      else create_missing specs ids tasks by_name)"

datatype error = KeyError string | IndexError

text \<open>
  The second loop over \<open>SEED_TASKS\<close>: \<open>by_name[spec["name"]]\<close> raises \<open>KeyError\<close> for a
  name that is not a key.
\<close>

fun seed_known ::
  "int \<Rightarrow> date list \<Rightarrow> (string \<times> spec) list \<Rightarrow> (string \<rightharpoonup> nat) \<Rightarrow> task list \<Rightarrow> rng
     \<Rightarrow> error + task list \<times> rng" where
  "seed_known tz days [] by_name tasks r = Inr (tasks, r)"
| "seed_known tz days ((nm, sp) # specs) by_name tasks r =
     (case by_name nm of
        None \<Rightarrow> Inl (KeyError nm)
      | Some k \<Rightarrow>
          (case add_sessions tz days (tasks ! k) sp r of
             (t, r') \<Rightarrow> seed_known tz days specs by_name (tasks[k := t]) r'))"

text \<open>The loop over \<open>EXISTING_SEEDS.items()\<close>, guarded by \<open>if name in by_name\<close>.\<close>

fun seed_existing ::
  "int \<Rightarrow> date list \<Rightarrow> (string \<times> spec) list \<Rightarrow> (string \<rightharpoonup> nat) \<Rightarrow> task list \<Rightarrow> rng
     \<Rightarrow> task list \<times> rng" where
  "seed_existing tz days [] by_name tasks r = (tasks, r)"
| "seed_existing tz days ((nm, sp) # specs) by_name tasks r =
     (case by_name nm of
        None \<Rightarrow> seed_existing tz days specs by_name tasks r
      | Some k \<Rightarrow>
          (case add_sessions tz days (tasks ! k) sp r of
             (t, r') \<Rightarrow> seed_existing tz days specs by_name (tasks[k := t]) r'))"

text \<open>\<open>task["sessions"].sort(key=lambda s: s["start"])\<close> for every task; the sort is stable.\<close>

definition sort_sessions :: "task list \<Rightarrow> task list" where
  "sort_sessions tasks = map (\<lambda>t. t\<lparr>sessions := sort_key start (sessions t)\<rparr>) tasks"

text \<open>
  The seeding transformation: what \<open>main\<close> does to \<open>data["tasks"]\<close> between reading the
  document and writing it back, for the list \<open>days\<close> that \<open>past_weekdays(2)\<close> returned.
\<close>

definition seed_data ::
  "int \<Rightarrow> date list \<Rightarrow> (nat \<Rightarrow> string) \<Rightarrow> rng \<Rightarrow> task list \<Rightarrow> error + task list" where
  "seed_data tz days ids r tasks =
     (case create_missing SEED_TASKS ids tasks (index_by_name tasks 0 Map.empty) of
        (tasks1, by_name) \<Rightarrow>
          (case seed_known tz days SEED_TASKS by_name tasks1 r of
             Inl e \<Rightarrow> Inl e
           | Inr (tasks2, r2) \<Rightarrow>
               (case seed_existing tz days EXISTING_SEEDS by_name tasks2 r2 of
                  (tasks3, r3) \<Rightarrow> Inr (sort_sessions tasks3))))"

section \<open>The script\<close>

text \<open>
  The database: \<open>users\<close> maps an email to the \<open>id\<close> of its row, \<open>user_data\<close> maps a
  \<open>user_id\<close> to the document stored in \<open>tasks_json\<close> (\<open>json.loads\<close> and \<open>json.dumps\<close>
  are the identity on documents here).  \<open>sql\<close> are the statements the script executes,
  \<open>line\<close> what it prints, \<open>exit\<close> how it ends.
\<close>

record db =
  users :: "string \<rightharpoonup> string"
  user_data :: "string \<rightharpoonup> task list"

datatype sql = SelectUser string | SelectTasks string | Upsert string "task list" | Commit

datatype line = Text string | Seeded nat date date string | TaskRow string nat rat

datatype exit = Returned | ParserError | Raised error

text \<open>
  One row of the summary: the sessions with a truthy \<open>end\<close>, the number of local
  calendar days they start on, and their total length in hours.
\<close>

definition local_date :: "int \<Rightarrow> int \<Rightarrow> date" where
  "local_date tz ms = (ms + tz * 1000) div 86400000 + 719163"

definition summary_row :: "int \<Rightarrow> task \<Rightarrow> line" where
  "summary_row tz t =
     (let finished = filter (\<lambda>s. end_ts s \<noteq> 0) (sessions t);
          total_h  = of_int (sum_list (map (\<lambda>s. end_ts s - start s) finished)) / 3600000;
          n_days   = length (remdups (map (\<lambda>s. local_date tz (start s)) finished))
      in TaskRow (name t) n_days total_h)"

text \<open>
  \<open>main\<close>, after the \<open>.env\<close> file is read: \<open>args_db\<close> is \<open>args.db\<close>, \<open>email\<close> is
  \<open>args.email\<close>.  An exception inside the \<open>with\<close> block leaves the database as it was;
  the summary is printed after the commit, and \<open>days[0]\<close> raises on an empty list.
\<close>

definition main ::
  "int \<Rightarrow> date \<Rightarrow> (nat \<Rightarrow> string) \<Rightarrow> rng \<Rightarrow> string option \<Rightarrow> string \<Rightarrow> db
     \<Rightarrow> db \<times> sql list \<times> line list \<times> exit" where
  "main tz today ids r args_db email d =
     (if args_db = None \<or> args_db = Some [] then (d, [], [], ParserError)
      else
        case users d email of
          None \<Rightarrow>
            (d, [SelectUser email], [Text (''No user found with email: '' @ email)], Returned)
        | Some user_id \<Rightarrow>
            let tasks = (case user_data d user_id of None \<Rightarrow> [] | Some ts \<Rightarrow> ts);
                days  = past_weekdays today 2
            in case seed_data tz days ids r tasks of
                 Inl e \<Rightarrow> (d, [SelectUser email, SelectTasks user_id], [], Raised e)
               | Inr tasks' \<Rightarrow>
                   let d'   = d\<lparr>user_data := (user_data d)(user_id \<mapsto> tasks')\<rparr>;
                       sqls = [SelectUser email, SelectTasks user_id, Upsert user_id tasks', Commit]
                   in case days of
                        [] \<Rightarrow> (d', sqls, [], Raised IndexError)
                      | d0 # _ \<Rightarrow>
                          (d', sqls,
                           Seeded (length days) d0 (last days) email # map (summary_row tz) tasks',
                           Returned))"

section \<open>Properties\<close>


definition total_duration :: "session list \<Rightarrow> int" where
  "total_duration ss = sum_list (map (\<lambda>s. end_ts s - start s) ss)"

definition spaced :: "session \<Rightarrow> session \<Rightarrow> bool" where
  "spaced a b \<longleftrightarrow> end_ts a + 300000 \<le> start b \<and> start a < start b"

definition distinct_starts :: "task \<Rightarrow> bool" where
  "distinct_starts t \<longleftrightarrow> distinct (map start (sessions t))"

definition kept :: "task \<Rightarrow> task \<Rightarrow> bool" where
  "kept t t' \<longleftrightarrow>
     task_id t' = task_id t \<and> name t' = name t \<and>
     mset (sessions t) \<subseteq># mset (sessions t') \<and>
     (distinct_starts t \<longrightarrow> distinct_starts t')"

section \<open>The random module returns values in range\<close>

lemma random_random_valid:
  assumes "valid_rng r" "random_random r = (u, r')"
  shows "0 \<le> u" "u < 1" "valid_rng r'"
  using assms by (auto simp: valid_rng_def random_random_def)

lemma random_uniform_valid:
  assumes "valid_rng r" "random_uniform a b r = (x, r')" "a \<le> b"
  shows "a \<le> x" "x \<le> b" "valid_rng r'"
proof -
  obtain u where u: "random_random r = (u, r')" and x: "x = a + (b - a) * u"
    using assms(2) by (auto simp: random_uniform_def split: prod.splits)
  have u01: "0 \<le> u" "u < 1" and v: "valid_rng r'"
    using random_random_valid[OF assms(1) u] by auto
  show "valid_rng r'" by (rule v)
  have "0 \<le> (b - a) * u" using assms(3) u01 by simp
  then show "a \<le> x" using x by simp
  have "(b - a) * u \<le> (b - a) * 1"
    using assms(3) u01 by (intro mult_left_mono) auto
  then show "x \<le> b" using x by simp
qed

lemma random_randint_valid:
  assumes "valid_rng r" "random_randint a b r = (k, r')" "a \<le> b"
  shows "a \<le> k" "k \<le> b" "valid_rng r'"
proof -
  obtain u where u: "random_random r = (u, r')"
    and k: "k = a + \<lfloor>u * of_int (b - a + 1)\<rfloor>"
    using assms(2) by (auto simp: random_randint_def split: prod.splits)
  have u01: "0 \<le> u" "u < 1" and v: "valid_rng r'"
    using random_random_valid[OF assms(1) u] by auto
  show "valid_rng r'" by (rule v)
  have pos: "(0::rat) < of_int (b - a + 1)" using assms(3) by simp
  have "0 \<le> u * of_int (b - a + 1)" using u01 pos by simp
  then have "0 \<le> \<lfloor>u * of_int (b - a + 1)\<rfloor>" by simp
  then show "a \<le> k" using k by simp
  have "u * of_int (b - a + 1) < 1 * of_int (b - a + 1)"
    using u01 pos by (intro mult_strict_right_mono) auto
  then have "u * of_int (b - a + 1) < of_int (b - a + 1)" by simp
  then have "\<lfloor>u * of_int (b - a + 1)\<rfloor> < b - a + 1"
    by (simp only: floor_less_iff)
  then show "k \<le> b" using k by simp
qed

lemma random_choices_valid:
  assumes "valid_rng r" "random_choices r = (n, r')"
  shows "n = 1 \<or> n = 2 \<or> n = 3" "valid_rng r'"
  using assms by (auto simp: random_choices_def random_random_def valid_rng_def split: if_splits)

lemma chunk_bounds:
  assumes "0 \<le> remaining" "35/100 \<le> f" "f \<le> 60/100"
  shows "0 \<le> py_int (of_int remaining * f)" "5 * py_int (of_int remaining * f) \<le> 3 * remaining"
proof -
  have nn: "(0::rat) \<le> of_int remaining * f" using assms by simp
  then show "0 \<le> py_int (of_int remaining * f)" by (simp add: py_int_def)
  have "of_int remaining * f \<le> of_int remaining * (60/100)"
    using assms by (intro mult_left_mono) auto
  moreover have "of_int (py_int (of_int remaining * f)) \<le> of_int remaining * f"
    using nn by (simp add: py_int_def)
  ultimately have "(of_int (py_int (of_int remaining * f)) :: rat) \<le> of_int remaining * (60/100)"
    by linarith
  then have "(of_int (5 * py_int (of_int remaining * f)) :: rat) \<le> of_int (3 * remaining)"
    by simp
  then show "5 * py_int (of_int remaining * f) \<le> 3 * remaining"
    by (simp only: of_int_le_iff)
qed

lemma chunk_pos:
  assumes "3 \<le> remaining" "35/100 \<le> f"
  shows "1 \<le> py_int (of_int remaining * f)"
proof -
  have "(of_int 3 :: rat) * (35/100) \<le> of_int remaining * f"
    using assms by (intro mult_mono) auto
  then have "(1::rat) \<le> of_int remaining * f" by simp
  then show ?thesis by (simp add: py_int_def le_floor_iff)
qed


lemma gen_loop_done: "n \<le> i \<Longrightarrow> gen_loop day_end n i cursor remaining out r = (out, r)"
  by (subst gen_loop.simps) simp

lemma next_chunk:
  assumes "valid_rng r" "0 \<le> remaining"
    and "(if int i = int n - 1 then (remaining, r)
          else case random_uniform (35/100) (60/100) r of
                 (f, r') \<Rightarrow> (py_int (of_int remaining * f), r')) = (chunk, r1)"
  shows "valid_rng r1" "0 \<le> chunk" "chunk \<le> remaining"
    "int i = int n - 1 \<Longrightarrow> chunk = remaining"
    "int i \<noteq> int n - 1 \<Longrightarrow> 5 * chunk \<le> 3 * remaining"
    "int i \<noteq> int n - 1 \<Longrightarrow> 3 \<le> remaining \<Longrightarrow> 1 \<le> chunk"
proof -
  show "int i = int n - 1 \<Longrightarrow> chunk = remaining" using assms(3) by simp
  consider (last) "int i = int n - 1" | (inner) "int i \<noteq> int n - 1" by blast
  then have "valid_rng r1 \<and> 0 \<le> chunk \<and> chunk \<le> remaining \<and>
    (int i \<noteq> int n - 1 \<longrightarrow> 5 * chunk \<le> 3 * remaining \<and> (3 \<le> remaining \<longrightarrow> 1 \<le> chunk))"
  proof cases
    case last
    then show ?thesis using assms by simp
  next
    case inner
    then obtain f where f: "random_uniform (35/100) (60/100) r = (f, r1)"
      and c: "chunk = py_int (of_int remaining * f)"
      using assms(3) by (auto split: prod.splits)
    have fb: "35/100 \<le> f" "f \<le> 60/100" and v: "valid_rng r1"
      using random_uniform_valid[OF assms(1) f] by auto
    have "0 \<le> chunk" "5 * chunk \<le> 3 * remaining"
      using chunk_bounds[OF assms(2) fb] c by auto
    moreover have "3 \<le> remaining \<Longrightarrow> 1 \<le> chunk"
      using chunk_pos[OF _ fb(1)] c by auto
    ultimately show ?thesis using v assms(2) by auto
  qed
  then show "valid_rng r1" "0 \<le> chunk" "chunk \<le> remaining"
    "int i \<noteq> int n - 1 \<Longrightarrow> 5 * chunk \<le> 3 * remaining"
    "int i \<noteq> int n - 1 \<Longrightarrow> 3 \<le> remaining \<Longrightarrow> 1 \<le> chunk"
    by auto
qed

lemma gen_loop_unfold:
  assumes "i < n"
  obtains chunk r1 g r2 where
    "(if int i = int n - 1 then (remaining, r)
      else case random_uniform (35/100) (60/100) r of
             (f, r') \<Rightarrow> (py_int (of_int remaining * f), r')) = (chunk, r1)"
    "random_randint 5 25 r1 = (g, r2)"
    "gen_loop day_end n i cursor remaining out r =
       (let stop = min (cursor + chunk) day_end;
            out' = out @ [\<lparr>start = cursor, end_ts = stop\<rparr>];
            remaining' = remaining - (stop - cursor)
        in if remaining' \<le> 0 then (out', r1)
           else if day_end \<le> stop + g * 60000 then (out', r2)
           else gen_loop day_end n (Suc i) (stop + g * 60000) remaining' out' r2)"
proof -
  obtain chunk r1 where c:
    "(if int i = int n - 1 then (remaining, r)
      else case random_uniform (35/100) (60/100) r of
             (f, r') \<Rightarrow> (py_int (of_int remaining * f), r')) = (chunk, r1)"
    by (rule prod.exhaust)
  obtain g r2 where g: "random_randint 5 25 r1 = (g, r2)" by (rule prod.exhaust)
  have "gen_loop day_end n i cursor remaining out r =
       (let stop = min (cursor + chunk) day_end;
            out' = out @ [\<lparr>start = cursor, end_ts = stop\<rparr>];
            remaining' = remaining - (stop - cursor)
        in if remaining' \<le> 0 then (out', r1)
           else if day_end \<le> stop + g * 60000 then (out', r2)
           else gen_loop day_end n (Suc i) (stop + g * 60000) remaining' out' r2)"
    using assms by (subst gen_loop.simps) (simp add: c g Let_def)
  with c g show ?thesis by (rule that)
qed

lemma gen_loop_step:
  assumes "i < n" "valid_rng r" "0 \<le> remaining"
  obtains chunk r1 g r2 where
    "gen_loop day_end n i cursor remaining out r =
       (let stop = min (cursor + chunk) day_end;
            out' = out @ [\<lparr>start = cursor, end_ts = stop\<rparr>];
            remaining' = remaining - (stop - cursor)
        in if remaining' \<le> 0 then (out', r1)
           else if day_end \<le> stop + g * 60000 then (out', r2)
           else gen_loop day_end n (Suc i) (stop + g * 60000) remaining' out' r2)"
    "valid_rng r2" "0 \<le> chunk" "chunk \<le> remaining"
    "int i = int n - 1 \<longrightarrow> chunk = remaining"
    "int i \<noteq> int n - 1 \<longrightarrow> 5 * chunk \<le> 3 * remaining"
    "int i \<noteq> int n - 1 \<and> 3 \<le> remaining \<longrightarrow> 1 \<le> chunk"
    "5 \<le> g"
proof -
  obtain chunk r1 g r2 where c:
    "(if int i = int n - 1 then (remaining, r)
      else case random_uniform (35/100) (60/100) r of
             (f, r') \<Rightarrow> (py_int (of_int remaining * f), r')) = (chunk, r1)"
    and g: "random_randint 5 25 r1 = (g, r2)"
    and eq: "gen_loop day_end n i cursor remaining out r =
       (let stop = min (cursor + chunk) day_end;
            out' = out @ [\<lparr>start = cursor, end_ts = stop\<rparr>];
            remaining' = remaining - (stop - cursor)
        in if remaining' \<le> 0 then (out', r1)
           else if day_end \<le> stop + g * 60000 then (out', r2)
           else gen_loop day_end n (Suc i) (stop + g * 60000) remaining' out' r2)"
    by (rule gen_loop_unfold[OF assms(1)])
  note nc = next_chunk[OF assms(2,3) c]
  have gb: "5 \<le> g" "valid_rng r2"
    using random_randint_valid[OF nc(1) g] by auto
  show ?thesis
    using nc(4,5,6) by (intro that[OF eq gb(2) nc(2) nc(3) _ _ _ gb(1)]) auto
qed



lemma gen_loop_length:
  "length out + (if i < n then 1 else 0) \<le> length (fst (gen_loop day_end n i cursor remaining out r))
   \<and> length (fst (gen_loop day_end n i cursor remaining out r)) \<le> length out + (n - i)"
proof (induction k \<equiv> "n - i" arbitrary: i cursor remaining out r)
  case 0
  then show ?case by (simp add: gen_loop_done)
next
  case (Suc k)
  from Suc.hyps(2) have lt: "i < n" and k: "k = n - Suc i" by auto
  obtain chunk r1 g r2 where eq:
    "gen_loop day_end n i cursor remaining out r =
       (let stop = min (cursor + chunk) day_end;
            out' = out @ [\<lparr>start = cursor, end_ts = stop\<rparr>];
            remaining' = remaining - (stop - cursor)
        in if remaining' \<le> 0 then (out', r1)
           else if day_end \<le> stop + g * 60000 then (out', r2)
           else gen_loop day_end n (Suc i) (stop + g * 60000) remaining' out' r2)"
    by (rule gen_loop_unfold[OF lt])
  define stop where "stop = min (cursor + chunk) day_end"
  define out' where "out' = out @ [\<lparr>start = cursor, end_ts = stop\<rparr>]"
  define remaining' where "remaining' = remaining - (stop - cursor)"
  have eq': "gen_loop day_end n i cursor remaining out r =
       (if remaining' \<le> 0 then (out', r1)
        else if day_end \<le> stop + g * 60000 then (out', r2)
        else gen_loop day_end n (Suc i) (stop + g * 60000) remaining' out' r2)"
    unfolding remaining'_def out'_def stop_def using eq by (simp only: Let_def)
  have len: "length out' = Suc (length out)" by (simp add: out'_def)
  show ?case
  proof (cases "remaining' \<le> 0 \<or> day_end \<le> stop + g * 60000")
    case True
    then have "fst (gen_loop day_end n i cursor remaining out r) = out'"
      unfolding eq' by auto
    then show ?thesis using len lt by simp
  next
    case False
    then have e: "gen_loop day_end n i cursor remaining out r =
        gen_loop day_end n (Suc i) (stop + g * 60000) remaining' out' r2"
      unfolding eq' by auto
    show ?thesis
      unfolding e using Suc.hyps(1)[OF k, where cursor="stop + g * 60000" and remaining=remaining' and out=out' and r=r2] len lt
      by (auto split: if_splits)
  qed
qed

lemma gen_loop_budget:
  assumes "valid_rng r" "cursor \<le> day_end" "0 \<le> remaining"
  shows "total_duration (fst (gen_loop day_end n i cursor remaining out r))
           \<le> total_duration out + remaining"
  using assms
proof (induction k \<equiv> "n - i" arbitrary: i cursor remaining out r)
  case 0
  then show ?case by (simp add: gen_loop_done)
next
  case (Suc k)
  from Suc.hyps(2) have lt: "i < n" and k: "k = n - Suc i" by auto
  obtain chunk r1 g r2 where eq:
    "gen_loop day_end n i cursor remaining out r =
       (let stop = min (cursor + chunk) day_end;
            out' = out @ [\<lparr>start = cursor, end_ts = stop\<rparr>];
            remaining' = remaining - (stop - cursor)
        in if remaining' \<le> 0 then (out', r1)
           else if day_end \<le> stop + g * 60000 then (out', r2)
           else gen_loop day_end n (Suc i) (stop + g * 60000) remaining' out' r2)"
    and st: "valid_rng r2" "0 \<le> chunk" "chunk \<le> remaining"
    by (rule gen_loop_step[OF lt Suc.prems(1,3)])
  define stop where "stop = min (cursor + chunk) day_end"
  define out' where "out' = out @ [\<lparr>start = cursor, end_ts = stop\<rparr>]"
  define remaining' where "remaining' = remaining - (stop - cursor)"
  have eq': "gen_loop day_end n i cursor remaining out r =
       (if remaining' \<le> 0 then (out', r1)
        else if day_end \<le> stop + g * 60000 then (out', r2)
        else gen_loop day_end n (Suc i) (stop + g * 60000) remaining' out' r2)"
    unfolding remaining'_def out'_def stop_def using eq by (simp only: Let_def)
  have stop: "cursor \<le> stop" "stop \<le> day_end" "stop \<le> cursor + chunk"
    using st(2) Suc.prems(2) by (auto simp: stop_def)
  have tot: "total_duration out' = total_duration out + (stop - cursor)"
    by (simp add: out'_def total_duration_def)
  show ?case
  proof (cases "remaining' \<le> 0 \<or> day_end \<le> stop + g * 60000")
    case True
    then have "fst (gen_loop day_end n i cursor remaining out r) = out'"
      unfolding eq' by auto
    then show ?thesis using tot stop st(3) by simp
  next
    case False
    then have e: "gen_loop day_end n i cursor remaining out r =
        gen_loop day_end n (Suc i) (stop + g * 60000) remaining' out' r2"
      unfolding eq' by auto
    have c: "stop + g * 60000 \<le> day_end" and r': "0 \<le> remaining'" using False by auto
    have "total_duration (fst (gen_loop day_end n (Suc i) (stop + g * 60000) remaining' out' r2))
            \<le> total_duration out' + remaining'"
      by (rule Suc.hyps(1)[OF k st(1) c r'])
    then show ?thesis unfolding e using tot by (simp add: remaining'_def)
  qed
qed

lemma gen_loop_spaced:
  assumes "valid_rng r" "cursor \<le> day_end" "0 \<le> remaining"
    and "sorted_wrt spaced out"
    and "\<forall>a\<in>set out. end_ts a + 300000 \<le> cursor \<and> start a < cursor"
  shows "sorted_wrt spaced (fst (gen_loop day_end n i cursor remaining out r))"
  using assms
proof (induction k \<equiv> "n - i" arbitrary: i cursor remaining out r)
  case 0
  then show ?case by (simp add: gen_loop_done)
next
  case (Suc k)
  from Suc.hyps(2) have lt: "i < n" and k: "k = n - Suc i" by auto
  obtain chunk r1 g r2 where eq:
    "gen_loop day_end n i cursor remaining out r =
       (let stop = min (cursor + chunk) day_end;
            out' = out @ [\<lparr>start = cursor, end_ts = stop\<rparr>];
            remaining' = remaining - (stop - cursor)
        in if remaining' \<le> 0 then (out', r1)
           else if day_end \<le> stop + g * 60000 then (out', r2)
           else gen_loop day_end n (Suc i) (stop + g * 60000) remaining' out' r2)"
    and st: "valid_rng r2" "0 \<le> chunk" "chunk \<le> remaining"
    "int i = int n - 1 \<longrightarrow> chunk = remaining"
    "int i \<noteq> int n - 1 \<longrightarrow> 5 * chunk \<le> 3 * remaining"
    "int i \<noteq> int n - 1 \<and> 3 \<le> remaining \<longrightarrow> 1 \<le> chunk"
    "5 \<le> g"
    by (rule gen_loop_step[OF lt Suc.prems(1,3)])
  define stop where "stop = min (cursor + chunk) day_end"
  define out' where "out' = out @ [\<lparr>start = cursor, end_ts = stop\<rparr>]"
  define remaining' where "remaining' = remaining - (stop - cursor)"
  have eq': "gen_loop day_end n i cursor remaining out r =
       (if remaining' \<le> 0 then (out', r1)
        else if day_end \<le> stop + g * 60000 then (out', r2)
        else gen_loop day_end n (Suc i) (stop + g * 60000) remaining' out' r2)"
    unfolding remaining'_def out'_def stop_def using eq by (simp only: Let_def)
  have stop: "cursor \<le> stop"
    using st(2) Suc.prems(2) by (auto simp: stop_def)
  have out': "sorted_wrt spaced out'"
    using Suc.prems(4,5) by (auto simp: out'_def sorted_wrt_append spaced_def)
  show ?case
  proof (cases "remaining' \<le> 0 \<or> day_end \<le> stop + g * 60000")
    case True
    then have "fst (gen_loop day_end n i cursor remaining out r) = out'"
      unfolding eq' by auto
    then show ?thesis using out' by simp
  next
    case False
    then have e: "gen_loop day_end n i cursor remaining out r =
        gen_loop day_end n (Suc i) (stop + g * 60000) remaining' out' r2"
      unfolding eq' by auto
    have c: "stop + g * 60000 \<le> day_end" and r': "0 \<le> remaining'" using False by auto
    have nxt: "\<forall>a\<in>set out'. end_ts a + 300000 \<le> stop + g * 60000 \<and> start a < stop + g * 60000"
      using Suc.prems(5) stop st(7) by (auto simp: out'_def)
    show ?thesis
      unfolding e by (rule Suc.hyps(1)[OF k st(1) c r' out' nxt])
  qed
qed

lemma to_ms_window: "to_ms tz d 18 30 = to_ms tz d 9 0 + 34200000"
  by (simp add: to_ms_def)

lemma total_ms_nonneg: "0 \<le> total_hours \<Longrightarrow> 0 \<le> py_int (total_hours * 3600000)"
  by (simp add: py_int_def)


section \<open>The driver only adds\<close>

lemma append_new_extends:
  "\<exists>add. fst (append_new ss existing new) = ss @ add"
proof (induction new arbitrary: ss existing)
  case Nil
  then show ?case by simp
next
  case (Cons s new)
  show ?case
  proof (cases "start s \<notin> existing")
    case True
    obtain add where "fst (append_new (ss @ [s]) (insert (start s) existing) new) = (ss @ [s]) @ add"
      using Cons.IH by blast
    then show ?thesis using True by (intro exI[of _ "s # add"]) simp
  next
    case False
    then show ?thesis using Cons.IH[of ss existing] by simp
  qed
qed

lemma append_new_distinct:
  assumes "distinct (map start ss)" "existing = set (map start ss)"
  shows "distinct (map start (fst (append_new ss existing new)))
       \<and> snd (append_new ss existing new) = set (map start (fst (append_new ss existing new)))"
  using assms
proof (induction new arbitrary: ss existing)
  case Nil
  then show ?case by simp
next
  case (Cons s new)
  show ?case
  proof (cases "start s \<notin> existing")
    case True
    have "distinct (map start (ss @ [s]))" using True Cons.prems by simp
    moreover have "insert (start s) existing = set (map start (ss @ [s]))"
      using Cons.prems by simp
    ultimately have
      "distinct (map start (fst (append_new (ss @ [s]) (insert (start s) existing) new)))
       \<and> snd (append_new (ss @ [s]) (insert (start s) existing) new)
           = set (map start (fst (append_new (ss @ [s]) (insert (start s) existing) new)))"
      by (rule Cons.IH)
    then show ?thesis using True by simp
  next
    case False
    then show ?thesis using Cons.IH[OF Cons.prems] by simp
  qed
qed

lemma add_sessions_days_extends:
  "\<exists>add. fst (add_sessions_days tz sp days ss existing r) = ss @ add"
proof (induction days arbitrary: ss existing r)
  case Nil
  then show ?case by simp
next
  case (Cons d days)
  obtain u r1 where u: "random_random r = (u, r1)" by (rule prod.exhaust)
  show ?case
  proof (cases "freq sp < u")
    case True
    then show ?thesis using Cons.IH[of ss existing r1] by (simp add: u)
  next
    case False
    obtain h r2 where h: "random_uniform (min_h sp) (max_h sp) r1 = (h, r2)" by (rule prod.exhaust)
    obtain new r3 where g: "gen_sessions tz d h r2 = (new, r3)" by (rule prod.exhaust)
    obtain ss' existing' where a: "append_new ss existing new = (ss', existing')" by (rule prod.exhaust)
    obtain add1 where "ss' = ss @ add1" using append_new_extends[of ss existing new] a by auto
    moreover obtain add2 where "fst (add_sessions_days tz sp days ss' existing' r3) = ss' @ add2"
      using Cons.IH[of ss' existing' r3] by auto
    ultimately show ?thesis using False by (simp add: u h g a)
  qed
qed

lemma add_sessions_days_distinct:
  assumes "distinct (map start ss)" "existing = set (map start ss)"
  shows "distinct (map start (fst (add_sessions_days tz sp days ss existing r)))"
  using assms
proof (induction days arbitrary: ss existing r)
  case Nil
  then show ?case by simp
next
  case (Cons d days)
  obtain u r1 where u: "random_random r = (u, r1)" by (rule prod.exhaust)
  show ?case
  proof (cases "freq sp < u")
    case True
    then show ?thesis using Cons.IH[OF Cons.prems, of r1] by (simp add: u)
  next
    case False
    obtain h r2 where h: "random_uniform (min_h sp) (max_h sp) r1 = (h, r2)" by (rule prod.exhaust)
    obtain new r3 where g: "gen_sessions tz d h r2 = (new, r3)" by (rule prod.exhaust)
    obtain ss' existing' where a: "append_new ss existing new = (ss', existing')" by (rule prod.exhaust)
    have "distinct (map start ss')" "existing' = set (map start ss')"
      using append_new_distinct[OF Cons.prems, of new] a by auto
    then have "distinct (map start (fst (add_sessions_days tz sp days ss' existing' r3)))"
      by (rule Cons.IH)
    then show ?thesis using False by (simp add: u h g a)
  qed
qed

lemma add_sessions_kept: "kept t (fst (add_sessions tz days t sp r))"
proof -
  obtain ss existing' r' where
    e: "add_sessions_days tz sp days (sessions t) (set (map start (sessions t))) r = (ss, existing', r')"
    by (rule prod_cases3)
  then have res: "fst (add_sessions tz days t sp r) = t\<lparr>sessions := ss\<rparr>"
    by (simp add: add_sessions_def)
  obtain add where "ss = sessions t @ add"
    using add_sessions_days_extends[of tz sp days "sessions t" "set (map start (sessions t))" r] e
    by auto
  moreover have "distinct (map start (sessions t)) \<Longrightarrow> distinct (map start ss)"
    using add_sessions_days_distinct[of "sessions t" "set (map start (sessions t))" tz sp days r] e
    by simp
  ultimately show ?thesis unfolding res by (simp add: kept_def distinct_starts_def)
qed

lemma kept_refl: "kept t t"
  by (simp add: kept_def)

lemma kept_trans: "kept a b \<Longrightarrow> kept b c \<Longrightarrow> kept a c"
  unfolding kept_def by (metis subset_mset.order_trans)

lemma all_kept_refl: "list_all2 kept ts ts"
  by (simp add: list_all2_refl kept_refl)

lemma all_kept_trans: "list_all2 kept as bs \<Longrightarrow> list_all2 kept bs cs \<Longrightarrow> list_all2 kept as cs"
  by (rule list_all2_trans[of kept kept kept, OF kept_trans])

lemma all_kept_update: "list_all2 kept ts (ts[k := fst (add_sessions tz days (ts ! k) sp r)])"
proof (cases "k < length ts")
  case True
  then show ?thesis
    by (simp add: list_all2_conv_all_nth nth_list_update kept_refl add_sessions_kept)
next
  case False
  then show ?thesis by (simp add: all_kept_refl list_update_beyond)
qed

lemma seed_known_kept:
  "seed_known tz days specs by_name ts r = Inr (ts', r') \<Longrightarrow> list_all2 kept ts ts'"
proof (induction specs arbitrary: ts r)
  case Nil
  then show ?case by (simp add: all_kept_refl)
next
  case (Cons p specs)
  obtain nm sp where p: "p = (nm, sp)" by (rule prod.exhaust)
  from Cons.prems obtain k where k: "by_name nm = Some k"
    by (auto simp: p split: option.splits)
  obtain t r1 where a: "add_sessions tz days (ts ! k) sp r = (t, r1)" by (rule prod.exhaust)
  have "seed_known tz days specs by_name (ts[k := t]) r1 = Inr (ts', r')"
    using Cons.prems by (simp add: p k a)
  then have "list_all2 kept (ts[k := t]) ts'" by (rule Cons.IH)
  moreover have "list_all2 kept ts (ts[k := t])"
    using all_kept_update[of ts k tz days sp r] a by simp
  ultimately show ?case by (rule all_kept_trans[rotated])
qed

lemma seed_known_total:
  "fst ` set specs \<subseteq> dom by_name \<Longrightarrow> \<exists>ts' r'. seed_known tz days specs by_name ts r = Inr (ts', r')"
proof (induction specs arbitrary: ts r)
  case Nil
  then show ?case by simp
next
  case (Cons p specs)
  obtain nm sp where p: "p = (nm, sp)" by (rule prod.exhaust)
  from Cons.prems obtain k where k: "by_name nm = Some k" by (auto simp: p)
  obtain t r1 where a: "add_sessions tz days (ts ! k) sp r = (t, r1)" by (rule prod.exhaust)
  have "fst ` set specs \<subseteq> dom by_name" using Cons.prems by simp
  then show ?case using Cons.IH[of "ts[k := t]" r1] by (simp add: p k a)
qed

lemma seed_existing_kept:
  "list_all2 kept ts (fst (seed_existing tz days specs by_name ts r))"
proof (induction specs arbitrary: ts r)
  case Nil
  then show ?case by (simp add: all_kept_refl)
next
  case (Cons p specs)
  obtain nm sp where p: "p = (nm, sp)" by (rule prod.exhaust)
  show ?case
  proof (cases "by_name nm")
    case None
    then show ?thesis using Cons.IH[of ts r] by (simp add: p)
  next
    case (Some k)
    obtain t r1 where a: "add_sessions tz days (ts ! k) sp r = (t, r1)" by (rule prod.exhaust)
    have "list_all2 kept ts (ts[k := t])"
      using all_kept_update[of ts k tz days sp r] a by simp
    moreover have "list_all2 kept (ts[k := t]) (fst (seed_existing tz days specs by_name (ts[k := t]) r1))"
      by (rule Cons.IH)
    ultimately have "list_all2 kept ts (fst (seed_existing tz days specs by_name (ts[k := t]) r1))"
      by (rule all_kept_trans)
    then show ?thesis by (simp add: p Some a)
  qed
qed

lemma sort_sessions_kept: "list_all2 kept ts (sort_sessions ts)"
proof -
  have "kept t (t\<lparr>sessions := sort_key start (sessions t)\<rparr>)" for t
  proof -
    have "mset (map start (sort_key start (sessions t))) = mset (map start (sessions t))"
      by simp
    then have "distinct (map start (sort_key start (sessions t))) = distinct (map start (sessions t))"
      by (rule mset_eq_imp_distinct_iff)
    then show ?thesis by (simp add: kept_def distinct_starts_def)
  qed
  then show ?thesis by (simp add: sort_sessions_def list_all2_conv_all_nth)
qed

lemma sort_sessions_sorted: "\<forall>t\<in>set (sort_sessions ts). sorted (map start (sessions t))"
  by (auto simp: sort_sessions_def)

lemma create_missing_appends:
  "\<exists>new. fst (create_missing specs ids tasks by_name) = tasks @ new \<and> (\<forall>t\<in>set new. sessions t = [])"
proof (induction specs arbitrary: ids tasks by_name)
  case Nil
  then show ?case by simp
next
  case (Cons p specs)
  obtain nm sp where p: "p = (nm, sp)" by (rule prod.exhaust)
  show ?case
  proof (cases "by_name nm")
    case None
    obtain new where "fst (create_missing specs (\<lambda>i. ids (Suc i))
             (tasks @ [\<lparr>task_id = ids 0, name = nm, sessions = []\<rparr>])
             (by_name(nm \<mapsto> length tasks))) = (tasks @ [\<lparr>task_id = ids 0, name = nm, sessions = []\<rparr>]) @ new"
      and "\<forall>t\<in>set new. sessions t = []"
      using Cons.IH by blast
    then show ?thesis using None
      by (intro exI[of _ "\<lparr>task_id = ids 0, name = nm, sessions = []\<rparr> # new"]) (simp add: p)
  next
    case (Some k)
    then show ?thesis using Cons.IH[of ids tasks by_name] by (simp add: p)
  qed
qed

lemma create_missing_dom:
  "dom by_name \<union> fst ` set specs \<subseteq> dom (snd (create_missing specs ids tasks by_name))"
proof (induction specs arbitrary: ids tasks by_name)
  case Nil
  then show ?case by simp
next
  case (Cons p specs)
  obtain nm sp where p: "p = (nm, sp)" by (rule prod.exhaust)
  show ?case
  proof (cases "by_name nm")
    case None
    define by_name' where "by_name' = by_name(nm \<mapsto> length tasks)"
    define tasks' where "tasks' = tasks @ [\<lparr>task_id = ids 0, name = nm, sessions = []\<rparr>]"
    have e: "create_missing (p # specs) ids tasks by_name =
             create_missing specs (\<lambda>i. ids (Suc i)) tasks' by_name'"
      using None by (simp add: p by_name'_def tasks'_def)
    have d: "dom by_name' = insert nm (dom by_name)" by (simp add: by_name'_def)
    have "dom by_name' \<union> fst ` set specs
            \<subseteq> dom (snd (create_missing specs (\<lambda>i. ids (Suc i)) tasks' by_name'))"
      by (rule Cons.IH)
    then show ?thesis unfolding e d by (auto simp: p)
  next
    case (Some k)
    have e: "create_missing (p # specs) ids tasks by_name = create_missing specs ids tasks by_name"
      using Some by (simp add: p)
    have "nm \<in> dom by_name" using Some by auto
    then show ?thesis unfolding e using Cons.IH[of by_name ids tasks] by (auto simp: p)
  qed
qed

lemma seed_data_result:
  obtains new res where
    "seed_data tz days ids r tasks = Inr res"
    "list_all2 kept (tasks @ new) res"
    "\<forall>t\<in>set new. sessions t = []"
    "\<forall>t\<in>set res. sorted (map start (sessions t))"
    "fst (create_missing SEED_TASKS ids tasks (index_by_name tasks 0 Map.empty)) = tasks @ new"
proof -
  obtain tasks1 by_name where c:
    "create_missing SEED_TASKS ids tasks (index_by_name tasks 0 Map.empty) = (tasks1, by_name)"
    by (rule prod.exhaust)
  obtain new where new: "tasks1 = tasks @ new" "\<forall>t\<in>set new. sessions t = []"
    using create_missing_appends[of SEED_TASKS ids tasks "index_by_name tasks 0 Map.empty"] c
    by auto
  have dom: "fst ` set SEED_TASKS \<subseteq> dom by_name"
    using create_missing_dom[of "index_by_name tasks 0 Map.empty" SEED_TASKS ids tasks]
    unfolding c by simp
  obtain tasks2 r2 where k: "seed_known tz days SEED_TASKS by_name tasks1 r = Inr (tasks2, r2)"
    using seed_known_total[OF dom, of tz days tasks1 r] by (elim exE)
  obtain tasks3 r3 where e: "seed_existing tz days EXISTING_SEEDS by_name tasks2 r2 = (tasks3, r3)"
    by (rule prod.exhaust)
  have res: "seed_data tz days ids r tasks = Inr (sort_sessions tasks3)"
    unfolding seed_data_def c by (simp add: k e)
  have k12: "list_all2 kept tasks1 tasks2" using k by (rule seed_known_kept)
  have k23: "list_all2 kept tasks2 tasks3"
    using seed_existing_kept[of tasks2 tz days EXISTING_SEEDS by_name r2] unfolding e by simp
  have k34: "list_all2 kept tasks3 (sort_sessions tasks3)" by (rule sort_sessions_kept)
  have "list_all2 kept tasks1 (sort_sessions tasks3)"
    by (rule all_kept_trans[OF all_kept_trans[OF k12 k23] k34])
  then have k14: "list_all2 kept (tasks @ new) (sort_sessions tasks3)"
    unfolding new(1) .
  have f: "fst (create_missing SEED_TASKS ids tasks (index_by_name tasks 0 Map.empty)) = tasks @ new"
    unfolding c using new(1) by simp
  show ?thesis
    by (rule that[OF res k14 new(2) sort_sessions_sorted f])
qed

section \<open>The session generator\<close>

lemma gen_sessions_unfold:
  obtains cursor r1 n r2 where
    "random_randint (to_ms tz d 9 0)
       (max (to_ms tz d 9 0) (to_ms tz d 18 30 - py_int (total_hours * 3600000) - 1800000)) r
       = (cursor, r1)"
    "random_choices r1 = (n, r2)"
    "gen_sessions tz d total_hours r =
       gen_loop (to_ms tz d 18 30) n 0 cursor (py_int (total_hours * 3600000)) [] r2"
proof -
  obtain cursor r1 where c: "random_randint (to_ms tz d 9 0)
       (max (to_ms tz d 9 0) (to_ms tz d 18 30 - py_int (total_hours * 3600000) - 1800000)) r
       = (cursor, r1)"
    by (rule prod.exhaust)
  obtain n r2 where n: "random_choices r1 = (n, r2)" by (rule prod.exhaust)
  have "gen_sessions tz d total_hours r =
       gen_loop (to_ms tz d 18 30) n 0 cursor (py_int (total_hours * 3600000)) [] r2"
    by (simp add: gen_sessions_def Let_def c n)
  with c n show ?thesis by (rule that)
qed

lemma random_choices_range: "fst (random_choices r) \<in> {1, 2, 3}"
  by (simp add: random_choices_def random_random_def)

lemma gen_sessions_start:
  assumes "valid_rng r" "0 \<le> total_hours"
  obtains cursor n r2 where
    "gen_sessions tz d total_hours r =
       gen_loop (to_ms tz d 18 30) n 0 cursor (py_int (total_hours * 3600000)) [] r2"
    "valid_rng r2" "to_ms tz d 9 0 \<le> cursor" "cursor < to_ms tz d 18 30"
    "n = 1 \<or> n = 2 \<or> n = 3"
proof -
  obtain cursor r1 n r2 where c: "random_randint (to_ms tz d 9 0)
       (max (to_ms tz d 9 0) (to_ms tz d 18 30 - py_int (total_hours * 3600000) - 1800000)) r
       = (cursor, r1)"
    and n: "random_choices r1 = (n, r2)"
    and e: "gen_sessions tz d total_hours r =
       gen_loop (to_ms tz d 18 30) n 0 cursor (py_int (total_hours * 3600000)) [] r2"
    by (rule gen_sessions_unfold)
  have cb: "to_ms tz d 9 0 \<le> cursor"
    "cursor \<le> max (to_ms tz d 9 0) (to_ms tz d 18 30 - py_int (total_hours * 3600000) - 1800000)"
    "valid_rng r1"
    using random_randint_valid[OF assms(1) c] by auto
  have "0 \<le> py_int (total_hours * 3600000)" using assms(2) by (rule total_ms_nonneg)
  then have lt: "cursor < to_ms tz d 18 30" using cb(2) to_ms_window[of tz d] by auto
  have nv: "n = 1 \<or> n = 2 \<or> n = 3" "valid_rng r2"
    using random_choices_valid[OF cb(3) n] by auto
  show ?thesis by (rule that[OF e nv(2) cb(1) lt nv(1)])
qed

text \<open>
  Every duration the driver passes to \<open>gen_sessions\<close> is drawn from \<open>[min_h, max_h]\<close>
  of an entry of the two tables, and is at least 0.3 hours.
\<close>

lemma driver_duration:
  assumes "valid_rng r" and "(nm, sp) \<in> set (SEED_TASKS @ EXISTING_SEEDS)"
  shows "3/10 \<le> fst (random_uniform (min_h sp) (max_h sp) r)"
proof -
  have b: "3/10 \<le> min_h sp \<and> min_h sp \<le> max_h sp"
    using assms(2) by (auto simp: SEED_TASKS_def EXISTING_SEEDS_def)
  obtain h r' where h: "random_uniform (min_h sp) (max_h sp) r = (h, r')"
    by (rule prod.exhaust)
  have "min_h sp \<le> h" using random_uniform_valid(1)[OF assms(1) h] b by simp
  then show ?thesis using b h by simp
qed



text \<open>
  Claim C5.  \<open>gen_sessions\<close> returns at least one and at most three sessions; this holds
  for every target duration, in particular for those of at least 0.3 hours.
\<close>

theorem gen_sessions_count:
  "1 \<le> length (fst (gen_sessions tz d total_hours r)) \<and>
   length (fst (gen_sessions tz d total_hours r)) \<le> 3"
proof -
  obtain cursor r1 n r2 where n: "random_choices r1 = (n, r2)"
    and e: "gen_sessions tz d total_hours r =
       gen_loop (to_ms tz d 18 30) n 0 cursor (py_int (total_hours * 3600000)) [] r2"
    by (rule gen_sessions_unfold)
  have "n \<in> {1, 2, 3}" using random_choices_range[of r1] n by simp
  then have "0 < n" "n \<le> 3" by auto
  then show ?thesis
    unfolding e
    using gen_loop_length[of "[]" 0 n "to_ms tz d 18 30" cursor "py_int (total_hours * 3600000)" r2]
    by simp
qed

text \<open>
  Claim C9.  For a target duration \<open>total_hours \<ge> 0\<close> the lengths \<open>end - start\<close> of the
  sessions that \<open>gen_sessions\<close> returns add up to at most
  \<open>int(total_hours * 3_600_000)\<close>.
\<close>

theorem gen_sessions_budget:
  assumes "valid_rng r" and "0 \<le> total_hours"
  shows "sum_list (map (\<lambda>s. end_ts s - start s) (fst (gen_sessions tz d total_hours r)))
           \<le> py_int (total_hours * 3600000)"
proof -
  obtain cursor n r2 where e: "gen_sessions tz d total_hours r =
       gen_loop (to_ms tz d 18 30) n 0 cursor (py_int (total_hours * 3600000)) [] r2"
    and st: "valid_rng r2" "to_ms tz d 9 0 \<le> cursor" "cursor < to_ms tz d 18 30"
    by (rule gen_sessions_start[OF assms])
  have c: "cursor \<le> to_ms tz d 18 30" using st(3) by simp
  have nn: "0 \<le> py_int (total_hours * 3600000)" using assms(2) by (rule total_ms_nonneg)
  have "total_duration (fst (gen_loop (to_ms tz d 18 30) n 0 cursor (py_int (total_hours * 3600000)) [] r2))
          \<le> total_duration [] + py_int (total_hours * 3600000)"
    by (rule gen_loop_budget[OF st(1) c nn])
  then show ?thesis unfolding e total_duration_def by simp
qed

theorem gen_sessions_budget_witness:
  "valid_rng (\<lambda>_. 99/100) \<and> (0::rat) \<le> 35/10 \<and>
   py_int (35/10 * 3600000) = 12600000 \<and>
   sum_list (map (\<lambda>s. end_ts s - start s) (fst (gen_sessions 0 739924 (35/10) (\<lambda>_. 99/100))))
     = 11598000 \<and>
   sum_list (map (\<lambda>s. end_ts s - start s) (fst (gen_sessions 0 739924 (35/10) (\<lambda>_. 99/100))))
     \<le> py_int (35/10 * 3600000)"
proof -
  have v: "valid_rng (\<lambda>_. 99/100)" by (simp add: valid_rng_def)
  have h: "(0::rat) \<le> 35/10" by simp
  have p: "py_int (35/10 * 3600000) = 12600000" by code_simp
  have e: "sum_list (map (\<lambda>s. end_ts s - start s) (fst (gen_sessions 0 739924 (35/10) (\<lambda>_. 99/100))))
     = 11598000"
    by code_simp
  show ?thesis using v h p e gen_sessions_budget[OF v h, of 0 739924] by blast
qed

text \<open>
  Claim C10.  For a target duration of at least 0.3 hours the sessions of one call of
  \<open>gen_sessions\<close> are in strictly increasing order of \<open>start\<close> and do not overlap: every
  later session starts at least 300000 milliseconds after every earlier one ends, in
  particular each session after its predecessor.
\<close>

theorem gen_sessions_spaced:
  assumes "valid_rng r" and "3/10 \<le> total_hours"
  shows "sorted_wrt (\<lambda>a b. end_ts a + 300000 \<le> start b \<and> start a < start b)
           (fst (gen_sessions tz d total_hours r))"
proof -
  have nn: "0 \<le> total_hours" using assms(2) by simp
  obtain cursor n r2 where e: "gen_sessions tz d total_hours r =
       gen_loop (to_ms tz d 18 30) n 0 cursor (py_int (total_hours * 3600000)) [] r2"
    and st: "valid_rng r2" "to_ms tz d 9 0 \<le> cursor" "cursor < to_ms tz d 18 30"
    by (rule gen_sessions_start[OF assms(1) nn])
  have c: "cursor \<le> to_ms tz d 18 30" using st(3) by simp
  have r0: "0 \<le> py_int (total_hours * 3600000)" using nn by (rule total_ms_nonneg)
  have "sorted_wrt spaced (fst (gen_loop (to_ms tz d 18 30) n 0 cursor (py_int (total_hours * 3600000)) [] r2))"
    by (rule gen_loop_spaced[OF st(1) c r0]) simp_all
  moreover have "spaced = (\<lambda>a b. end_ts a + 300000 \<le> start b \<and> start a < start b)"
    by (intro ext) (simp add: spaced_def)
  ultimately show ?thesis unfolding e by simp
qed

theorem gen_sessions_spaced_witness:
  "valid_rng (\<lambda>_. 9/10) \<and> (3/10 :: rat) \<le> 3/10 \<and>
   fst (gen_sessions 0 739924 (3/10) (\<lambda>_. 9/10)) =
     [\<lparr>start = 1793810988000, end_ts = 1793811609000\<rparr>,
      \<lparr>start = 1793812989000, end_ts = 1793813252925\<rparr>,
      \<lparr>start = 1793814632925, end_ts = 1793814828000\<rparr>] \<and>
   sorted_wrt (\<lambda>a b. end_ts a + 300000 \<le> start b \<and> start a < start b)
     (fst (gen_sessions 0 739924 (3/10) (\<lambda>_. 9/10)))"
proof -
  have v: "valid_rng (\<lambda>_. 9/10)" by (simp add: valid_rng_def)
  have h: "(3/10 :: rat) \<le> 3/10" by simp
  have e: "fst (gen_sessions 0 739924 (3/10) (\<lambda>_. 9/10)) =
     [\<lparr>start = 1793810988000, end_ts = 1793811609000\<rparr>,
      \<lparr>start = 1793812989000, end_ts = 1793813252925\<rparr>,
      \<lparr>start = 1793814632925, end_ts = 1793814828000\<rparr>]"
    by code_simp
  show ?thesis using v h e gen_sessions_spaced[OF v h, of 0 739924] by blast
qed

section \<open>The weekday enumerator\<close>

lemma weekdays_loop_set:
  "set (weekdays_loop yesterday d days) =
     set days \<union> {x. d \<le> x \<and> x \<le> yesterday \<and> weekday x < 5}"
proof (induction yesterday d days rule: weekdays_loop.induct)
  case (1 yesterday d days)
  show ?case
  proof (cases "d \<le> yesterday")
    case True
    have split: "{x. d \<le> x \<and> x \<le> yesterday \<and> weekday x < 5} =
        (if weekday d < 5 then {d} else {}) \<union> {x. d + 1 \<le> x \<and> x \<le> yesterday \<and> weekday x < 5}"
      using True by (auto simp: order_le_less)
    have "set (weekdays_loop yesterday d days) =
        set (if weekday d < 5 then days @ [d] else days)
          \<union> {x. d + 1 \<le> x \<and> x \<le> yesterday \<and> weekday x < 5}"
      using True 1 by (subst weekdays_loop.simps) simp
    then show ?thesis unfolding split by auto
  next
    case False
    then show ?thesis by (subst weekdays_loop.simps) auto
  qed
qed

text \<open>
  Claim C4.  For every reference day \<open>today\<close>, \<open>past_weekdays(2)\<close> returns only dates
  whose weekday is Monday (0) to Friday (4) and that lie between two weeks before today
  and yesterday, both included.
\<close>

theorem past_weekdays_range:
  "\<forall>d\<in>set (past_weekdays today 2).
     0 \<le> weekday d \<and> weekday d < 5 \<and> today - 14 \<le> d \<and> d \<le> today - 1"
  by (auto simp: past_weekdays_def weekdays_loop_set weekday_def)

theorem past_weekdays_range_witness:
  "past_weekdays 739924 2 =
     [739910, 739911, 739912, 739915, 739916, 739917, 739918, 739919, 739922, 739923] \<and>
   list_all (\<lambda>d. 0 \<le> weekday d \<and> weekday d < 5 \<and> 739924 - 14 \<le> d \<and> d \<le> 739924 - 1)
     (past_weekdays 739924 2)"
proof -
  have e: "past_weekdays 739924 2 =
     [739910, 739911, 739912, 739915, 739916, 739917, 739918, 739919, 739922, 739923]"
    by code_simp
  show ?thesis using e past_weekdays_range[of 739924] unfolding list_all_iff by blast
qed

section \<open>A missing user\<close>

text \<open>
  Claim C8.  When the lookup by email finds no row, the script prints the not-found
  message and returns: the only statement executed is the lookup, and the database is
  the one it started with.
\<close>

theorem main_user_not_found:
  assumes "args_db = Some url" and "url \<noteq> []" and "users d email = None"
  shows "main tz today ids r args_db email d =
           (d, [SelectUser email], [Text (''No user found with email: '' @ email)], Returned)"
  using assms by (simp add: main_def)

theorem main_user_not_found_witness:
  "Some ''postgresql://localhost/tt'' = Some ''postgresql://localhost/tt'' \<and>
   ''postgresql://localhost/tt'' \<noteq> [] \<and>
   users \<lparr>users = [''a@example.com'' \<mapsto> ''u1''], user_data = [''u1'' \<mapsto> []]\<rparr> ''you@example.com'' = None \<and>
   main 0 739924 (\<lambda>_. ''id'') (\<lambda>_. 1/2) (Some ''postgresql://localhost/tt'') ''you@example.com''
       \<lparr>users = [''a@example.com'' \<mapsto> ''u1''], user_data = [''u1'' \<mapsto> []]\<rparr> =
     (\<lparr>users = [''a@example.com'' \<mapsto> ''u1''], user_data = [''u1'' \<mapsto> []]\<rparr>,
      [SelectUser ''you@example.com''],
      [Text ''No user found with email: you@example.com''], Returned)"
proof -
  have u: "users \<lparr>users = [''a@example.com'' \<mapsto> ''u1''], user_data = [''u1'' \<mapsto> []]\<rparr> ''you@example.com'' = None"
    by simp
  have n: "''postgresql://localhost/tt'' \<noteq> []" by simp
  show ?thesis
    using u n main_user_not_found[OF refl n u, of 0 739924 "\<lambda>_. ''id''" "\<lambda>_. 1/2"] by simp
qed

section \<open>The seeding transformation\<close>

lemma all_kept_nth:
  assumes "list_all2 kept ts ts'" "i < length ts"
  shows "kept (ts ! i) (ts' ! i)"
  using assms by (simp add: list_all2_conv_all_nth)

lemma all_kept_names: "list_all2 kept ts ts' \<Longrightarrow> map name ts' = map name ts"
  by (induction rule: list_all2_induct) (simp_all add: kept_def)

text \<open>
  Claim C1.  For every initial document the seeding transformation returns a document
  (it raises no \<open>KeyError\<close>) in which every task of the initial document is still
  present, at its position and with its id and name, and still has every session it had
  (counted with multiplicity): the run only adds.
\<close>

theorem seed_data_additive:
  "\<exists>res. seed_data tz days ids r tasks = Inr res \<and> length tasks \<le> length res \<and>
     (\<forall>i<length tasks.
        task_id (res ! i) = task_id (tasks ! i) \<and> name (res ! i) = name (tasks ! i) \<and>
        mset (sessions (tasks ! i)) \<subseteq># mset (sessions (res ! i)))"
proof -
  obtain new res where res: "seed_data tz days ids r tasks = Inr res"
    and k: "list_all2 kept (tasks @ new) res"
    by (rule seed_data_result)
  have len: "length res = length tasks + length new"
    using list_all2_lengthD[OF k] by simp
  have "task_id (res ! i) = task_id (tasks ! i) \<and> name (res ! i) = name (tasks ! i) \<and>
        mset (sessions (tasks ! i)) \<subseteq># mset (sessions (res ! i))" if "i < length tasks" for i
  proof -
    have "kept ((tasks @ new) ! i) (res ! i)" using that by (intro all_kept_nth[OF k]) simp
    then have "kept (tasks ! i) (res ! i)" using that by (simp add: nth_append)
    then show ?thesis by (simp add: kept_def)
  qed
  then show ?thesis using res len by simp
qed

theorem seed_data_additive_witness:
  "map (length \<circ> sessions)
     (case seed_data 0 (past_weekdays 739924 2) (\<lambda>_. ''id'') (\<lambda>_. 1/2)
        [\<lparr>task_id = ''t1'', name = ''deep work'',
          sessions = [\<lparr>start = 1792585350001, end_ts = 1792589197500\<rparr>]\<rparr>] of
        Inr res \<Rightarrow> res | Inl e \<Rightarrow> []) = [21, 20, 20, 20, 0] \<and>
   (\<exists>res. seed_data 0 (past_weekdays 739924 2) (\<lambda>_. ''id'') (\<lambda>_. 1/2)
        [\<lparr>task_id = ''t1'', name = ''deep work'',
          sessions = [\<lparr>start = 1792585350001, end_ts = 1792589197500\<rparr>]\<rparr>] = Inr res \<and>
      1 \<le> length res \<and> task_id (res ! 0) = ''t1'' \<and> name (res ! 0) = ''deep work'' \<and>
      {#\<lparr>start = 1792585350001, end_ts = 1792589197500\<rparr>#} \<subseteq># mset (sessions (res ! 0)))"
proof -
  have e: "map (length \<circ> sessions)
     (case seed_data 0 (past_weekdays 739924 2) (\<lambda>_. ''id'') (\<lambda>_. 1/2)
        [\<lparr>task_id = ''t1'', name = ''deep work'',
          sessions = [\<lparr>start = 1792585350001, end_ts = 1792589197500\<rparr>]\<rparr>] of
        Inr res \<Rightarrow> res | Inl e \<Rightarrow> []) = [21, 20, 20, 20, 0]"
    by code_simp
  show ?thesis
    using e seed_data_additive[of 0 "past_weekdays 739924 2" "\<lambda>_. ''id''" "\<lambda>_. 1/2"
        "[\<lparr>task_id = ''t1'', name = ''deep work'',
          sessions = [\<lparr>start = 1792585350001, end_ts = 1792589197500\<rparr>]\<rparr>]"]
    by simp
qed

text \<open>
  Claim C3 says that after a run no two sessions of a task share a \<open>start\<close>.  The
  transformation compares only the sessions it generates with the starts already
  present; two sessions of the initial document with the same \<open>start\<close> are both kept.
\<close>

theorem seed_data_duplicate_starts_counterexample:
  "seed_data 0 (past_weekdays 739924 2) (\<lambda>_. ''id'') (\<lambda>_. 99/100)
     [\<lparr>task_id = ''t'', name = ''x'',
       sessions = [\<lparr>start = 1, end_ts = 2\<rparr>, \<lparr>start = 1, end_ts = 3\<rparr>]\<rparr>] =
   Inr [\<lparr>task_id = ''t'', name = ''x'',
          sessions = [\<lparr>start = 1, end_ts = 2\<rparr>, \<lparr>start = 1, end_ts = 3\<rparr>]\<rparr>,
        \<lparr>task_id = ''id'', name = ''deep work'', sessions = []\<rparr>,
        \<lparr>task_id = ''id'', name = ''email & slack'', sessions = []\<rparr>,
        \<lparr>task_id = ''id'', name = ''code review'', sessions = []\<rparr>,
        \<lparr>task_id = ''id'', name = ''meetings'', sessions = []\<rparr>,
        \<lparr>task_id = ''id'', name = ''planning'', sessions = []\<rparr>] \<and>
   \<not> distinct (map start [\<lparr>start = 1, end_ts = 2\<rparr>, \<lparr>start = 1, end_ts = 3\<rparr>])"
  by code_simp

text \<open>
  Claim C3, amended.  After a run, every task the run created has no two sessions with
  the same \<open>start\<close>, and every task of the initial document that had no two sessions
  with the same \<open>start\<close> still has none, whatever the other tasks of the document hold.
\<close>

theorem seed_data_distinct_starts_per_task:
  "\<exists>res. seed_data tz days ids r tasks = Inr res \<and> length tasks \<le> length res \<and>
     (\<forall>i<length res.
        (i < length tasks \<longrightarrow> distinct (map start (sessions (tasks ! i)))) \<longrightarrow>
        distinct (map start (sessions (res ! i))))"
proof -
  obtain new res where res: "seed_data tz days ids r tasks = Inr res"
    and k: "list_all2 kept (tasks @ new) res"
    and new: "\<forall>t\<in>set new. sessions t = []"
    by (rule seed_data_result)
  have len: "length res = length tasks + length new"
    using list_all2_lengthD[OF k] by simp
  have "distinct (map start (sessions (res ! i)))"
    if i: "i < length res"
      and h: "i < length tasks \<longrightarrow> distinct (map start (sessions (tasks ! i)))" for i
  proof -
    have ki: "kept ((tasks @ new) ! i) (res ! i)"
      using i len by (intro all_kept_nth[OF k]) simp
    have "distinct_starts ((tasks @ new) ! i)"
    proof (cases "i < length tasks")
      case True
      then show ?thesis using h by (simp add: nth_append distinct_starts_def)
    next
      case False
      then have "i - length tasks < length new" using i len by simp
      then have "new ! (i - length tasks) \<in> set new" by (rule nth_mem)
      then have "sessions (new ! (i - length tasks)) = []" using new by blast
      then show ?thesis using False by (simp add: nth_append distinct_starts_def)
    qed
    then show ?thesis using ki by (simp add: kept_def distinct_starts_def)
  qed
  then show ?thesis using res len by simp
qed

theorem seed_data_distinct_starts_per_task_witness:
  "map (length \<circ> sessions)
     (case seed_data 0 (past_weekdays 739924 2) (\<lambda>_. ''id'') (\<lambda>_. 1/2)
        [\<lparr>task_id = ''t0'', name = ''x'',
          sessions = [\<lparr>start = 1, end_ts = 2\<rparr>, \<lparr>start = 1, end_ts = 3\<rparr>]\<rparr>,
         \<lparr>task_id = ''t1'', name = ''deep work'',
          sessions = [\<lparr>start = 1792585350000, end_ts = 1792589197500\<rparr>]\<rparr>] of
        Inr res \<Rightarrow> res | Inl e \<Rightarrow> []) = [2, 20, 20, 20, 20, 0] \<and>
   distinct (map start [\<lparr>start = 1792585350000, end_ts = 1792589197500\<rparr>]) \<and>
   (\<exists>res. seed_data 0 (past_weekdays 739924 2) (\<lambda>_. ''id'') (\<lambda>_. 1/2)
        [\<lparr>task_id = ''t0'', name = ''x'',
          sessions = [\<lparr>start = 1, end_ts = 2\<rparr>, \<lparr>start = 1, end_ts = 3\<rparr>]\<rparr>,
         \<lparr>task_id = ''t1'', name = ''deep work'',
          sessions = [\<lparr>start = 1792585350000, end_ts = 1792589197500\<rparr>]\<rparr>] = Inr res \<and>
      distinct (map start (sessions (res ! 1))) \<and>
      distinct (map start (sessions (res ! 2))))"
proof -
  define doc where "doc =
        [\<lparr>task_id = ''t0'', name = ''x'',
          sessions = [\<lparr>start = 1, end_ts = 2\<rparr>, \<lparr>start = 1, end_ts = 3\<rparr>]\<rparr>,
         \<lparr>task_id = ''t1'', name = ''deep work'',
          sessions = [\<lparr>start = 1792585350000, end_ts = 1792589197500\<rparr>]\<rparr>]"
  have e: "map (length \<circ> sessions)
     (case seed_data 0 (past_weekdays 739924 2) (\<lambda>_. ''id'') (\<lambda>_. 1/2)
        [\<lparr>task_id = ''t0'', name = ''x'',
          sessions = [\<lparr>start = 1, end_ts = 2\<rparr>, \<lparr>start = 1, end_ts = 3\<rparr>]\<rparr>,
         \<lparr>task_id = ''t1'', name = ''deep work'',
          sessions = [\<lparr>start = 1792585350000, end_ts = 1792589197500\<rparr>]\<rparr>] of
        Inr res \<Rightarrow> res | Inl e \<Rightarrow> []) = [2, 20, 20, 20, 20, 0]"
    by code_simp
  have d: "distinct (map start [\<lparr>start = 1792585350000, end_ts = 1792589197500\<rparr>])" by simp
  obtain res where res: "seed_data 0 (past_weekdays 739924 2) (\<lambda>_. ''id'') (\<lambda>_. 1/2) doc = Inr res"
    and all: "\<forall>i<length res.
        (i < length doc \<longrightarrow> distinct (map start (sessions (doc ! i)))) \<longrightarrow>
        distinct (map start (sessions (res ! i)))"
    using seed_data_distinct_starts_per_task[of 0 "past_weekdays 739924 2" "\<lambda>_. ''id''" "\<lambda>_. 1/2" doc]
    by (elim exE conjE)
  have "map (length \<circ> sessions) res = [2, 20, 20, 20, 20, 0]"
    using e res by (simp add: doc_def)
  then have "length (map (length \<circ> sessions) res) = 6" by simp
  then have len: "length res = 6" by simp
  have d1: "distinct (map start (sessions (res ! 1)))"
    using all len by (simp add: doc_def)
  have d2: "distinct (map start (sessions (res ! 2)))"
    using all len by (simp add: doc_def)
  show ?thesis using e d res d1 d2 unfolding doc_def by blast
qed

text \<open>
  Claim C6.  After a run, the session list of every task of the resulting document is
  sorted in non-decreasing order of \<open>start\<close>.
\<close>

theorem seed_data_sorted:
  "\<exists>res. seed_data tz days ids r tasks = Inr res \<and>
     (\<forall>t\<in>set res. sorted (map start (sessions t)))"
proof -
  obtain new res where "seed_data tz days ids r tasks = Inr res"
    and "list_all2 kept (tasks @ new) res"
    and "\<forall>t\<in>set new. sessions t = []"
    and "\<forall>t\<in>set res. sorted (map start (sessions t))"
    by (rule seed_data_result)
  then show ?thesis by simp
qed

theorem seed_data_sorted_witness:
  "seed_data 0 (past_weekdays 739924 2) (\<lambda>_. ''id'') (\<lambda>_. 99/100)
     [\<lparr>task_id = ''t1'', name = ''React Query'',
       sessions = [\<lparr>start = 5, end_ts = 6\<rparr>, \<lparr>start = 1, end_ts = 2\<rparr>]\<rparr>] =
   Inr [\<lparr>task_id = ''t1'', name = ''React Query'',
          sessions = [\<lparr>start = 1, end_ts = 2\<rparr>, \<lparr>start = 5, end_ts = 6\<rparr>]\<rparr>,
        \<lparr>task_id = ''id'', name = ''deep work'', sessions = []\<rparr>,
        \<lparr>task_id = ''id'', name = ''email & slack'', sessions = []\<rparr>,
        \<lparr>task_id = ''id'', name = ''code review'', sessions = []\<rparr>,
        \<lparr>task_id = ''id'', name = ''meetings'', sessions = []\<rparr>,
        \<lparr>task_id = ''id'', name = ''planning'', sessions = []\<rparr>] \<and>
   (\<exists>res. seed_data 0 (past_weekdays 739924 2) (\<lambda>_. ''id'') (\<lambda>_. 99/100)
        [\<lparr>task_id = ''t1'', name = ''React Query'',
          sessions = [\<lparr>start = 5, end_ts = 6\<rparr>, \<lparr>start = 1, end_ts = 2\<rparr>]\<rparr>] = Inr res \<and>
      list_all (\<lambda>t. sorted (map start (sessions t))) res)"
proof -
  have e: "seed_data 0 (past_weekdays 739924 2) (\<lambda>_. ''id'') (\<lambda>_. 99/100)
     [\<lparr>task_id = ''t1'', name = ''React Query'',
       sessions = [\<lparr>start = 5, end_ts = 6\<rparr>, \<lparr>start = 1, end_ts = 2\<rparr>]\<rparr>] =
   Inr [\<lparr>task_id = ''t1'', name = ''React Query'',
          sessions = [\<lparr>start = 1, end_ts = 2\<rparr>, \<lparr>start = 5, end_ts = 6\<rparr>]\<rparr>,
        \<lparr>task_id = ''id'', name = ''deep work'', sessions = []\<rparr>,
        \<lparr>task_id = ''id'', name = ''email & slack'', sessions = []\<rparr>,
        \<lparr>task_id = ''id'', name = ''code review'', sessions = []\<rparr>,
        \<lparr>task_id = ''id'', name = ''meetings'', sessions = []\<rparr>,
        \<lparr>task_id = ''id'', name = ''planning'', sessions = []\<rparr>]"
    by code_simp
  obtain res where "seed_data 0 (past_weekdays 739924 2) (\<lambda>_. ''id'') (\<lambda>_. 99/100)
        [\<lparr>task_id = ''t1'', name = ''React Query'',
          sessions = [\<lparr>start = 5, end_ts = 6\<rparr>, \<lparr>start = 1, end_ts = 2\<rparr>]\<rparr>] = Inr res"
    and "\<forall>t\<in>set res. sorted (map start (sessions t))"
    using seed_data_sorted by blast
  then have "\<exists>res. seed_data 0 (past_weekdays 739924 2) (\<lambda>_. ''id'') (\<lambda>_. 99/100)
        [\<lparr>task_id = ''t1'', name = ''React Query'',
          sessions = [\<lparr>start = 5, end_ts = 6\<rparr>, \<lparr>start = 1, end_ts = 2\<rparr>]\<rparr>] = Inr res \<and>
      list_all (\<lambda>t. sorted (map start (sessions t))) res"
    unfolding list_all_iff by blast
  with e show ?thesis by (rule conjI)
qed

text \<open>
  Claim C7.  From an empty task list the transformation produces exactly five tasks,
  named \<open>deep work\<close>, \<open>email & slack\<close>, \<open>code review\<close>, \<open>meetings\<close> and \<open>planning\<close> in
  this order; no task named \<open>React Query\<close> or \<open>Interview Prep\<close> is created.
\<close>

theorem seed_data_empty:
  "\<exists>res. seed_data tz days ids r [] = Inr res \<and>
     map name res = [''deep work'', ''email & slack'', ''code review'', ''meetings'', ''planning''] \<and>
     length res = 5 \<and>
     ''React Query'' \<notin> set (map name res) \<and> ''Interview Prep'' \<notin> set (map name res)"
proof -
  obtain new res where res: "seed_data tz days ids r [] = Inr res"
    and k: "list_all2 kept ([] @ new) res"
    and "\<forall>t\<in>set new. sessions t = []"
    and "\<forall>t\<in>set res. sorted (map start (sessions t))"
    and c: "fst (create_missing SEED_TASKS ids [] (index_by_name [] 0 Map.empty)) = [] @ new"
    by (rule seed_data_result)
  have "map name (fst (create_missing SEED_TASKS ids [] (index_by_name [] 0 Map.empty))) =
      [''deep work'', ''email & slack'', ''code review'', ''meetings'', ''planning'']"
    by (simp add: SEED_TASKS_def)
  then have n: "map name new =
      [''deep work'', ''email & slack'', ''code review'', ''meetings'', ''planning'']"
    unfolding c by simp
  have m: "map name res =
      [''deep work'', ''email & slack'', ''code review'', ''meetings'', ''planning'']"
    using all_kept_names[OF k] n by simp
  have l: "length res = 5" using arg_cong[OF m, of length] by simp
  have rq: "''React Query'' \<notin> set (map name res)" unfolding m by simp
  have ip: "''Interview Prep'' \<notin> set (map name res)" unfolding m by simp
  show ?thesis using res m l rq ip by (intro exI[of _ res] conjI)
qed

end
